theory Spec2Isabelle
  imports Main "HOL-Library.Char_ord" "HOL-Library.List_Lexorder"
begin

section \<open>Text\<close>

text \<open>
  A Python \<open>str\<close> is modelled as a \<^typ>\<open>string\<close> whose characters are the code points
  below 256. On these, \<open>str.lower\<close>, \<open>str.isspace\<close> and the character class \<open>\w\<close> of
  the \<open>re\<close> module are the functions below, given by the tables of the characters
  concerned. Strings are ordered by code point, lexicographically, as Python orders them.
\<close>

definition ascii_uppercase :: string where
  "ascii_uppercase = ''ABCDEFGHIJKLMNOPQRSTUVWXYZ''"

definition ascii_lowercase :: string where
  "ascii_lowercase = ''abcdefghijklmnopqrstuvwxyz''"

definition latin1_uppercase :: string where
  \<comment> \<open>U+00C0 to U+00DE without the multiplication sign U+00D7\<close>
  "latin1_uppercase =
     [CHR 0xC0, CHR 0xC1, CHR 0xC2, CHR 0xC3, CHR 0xC4, CHR 0xC5, CHR 0xC6, CHR 0xC7,
      CHR 0xC8, CHR 0xC9, CHR 0xCA, CHR 0xCB, CHR 0xCC, CHR 0xCD, CHR 0xCE, CHR 0xCF,
      CHR 0xD0, CHR 0xD1, CHR 0xD2, CHR 0xD3, CHR 0xD4, CHR 0xD5, CHR 0xD6, CHR 0xD8,
      CHR 0xD9, CHR 0xDA, CHR 0xDB, CHR 0xDC, CHR 0xDD, CHR 0xDE]"

definition latin1_lowercase :: string where
  \<comment> \<open>the lower case of each of them, 32 code points above it\<close>
  "latin1_lowercase =
     [CHR 0xE0, CHR 0xE1, CHR 0xE2, CHR 0xE3, CHR 0xE4, CHR 0xE5, CHR 0xE6, CHR 0xE7,
      CHR 0xE8, CHR 0xE9, CHR 0xEA, CHR 0xEB, CHR 0xEC, CHR 0xED, CHR 0xEE, CHR 0xEF,
      CHR 0xF0, CHR 0xF1, CHR 0xF2, CHR 0xF3, CHR 0xF4, CHR 0xF5, CHR 0xF6, CHR 0xF8,
      CHR 0xF9, CHR 0xFA, CHR 0xFB, CHR 0xFC, CHR 0xFD, CHR 0xFE]"

definition lower_char :: "char \<Rightarrow> char" where
  "lower_char c =
     (case map_of (zip (ascii_uppercase @ latin1_uppercase)
                       (ascii_lowercase @ latin1_lowercase)) c of
        None \<Rightarrow> c
      | Some d \<Rightarrow> d)"

definition upper_char :: "char \<Rightarrow> char" where
  \<comment> \<open>Exact on ASCII, which is all a cleaned word holds (see \<open>clean_word\<close>).\<close>
  "upper_char c =
     (case map_of (zip ascii_lowercase ascii_uppercase) c of None \<Rightarrow> c | Some d \<Rightarrow> d)"

definition lower :: "string \<Rightarrow> string" where
  "lower s = map lower_char s"

fun capitalize :: "string \<Rightarrow> string" where
  "capitalize [] = []"
| "capitalize (c # cs) = upper_char c # lower cs"

definition whitespace :: string where
  \<comment> \<open>the characters of which \<open>str.isspace\<close> holds: U+0009 to U+000D, U+001C to U+0020,
      U+0085, U+00A0\<close>
  "whitespace =
     [CHR 0x09, CHR 0x0A, CHR 0x0B, CHR 0x0C, CHR 0x0D, CHR 0x1C, CHR 0x1D, CHR 0x1E,
      CHR 0x1F, CHR 0x20, CHR 0x85, CHR 0xA0]"

definition isspace :: "char \<Rightarrow> bool" where
  "isspace c \<longleftrightarrow> c \<in> set whitespace"

definition strip :: "string \<Rightarrow> string" where
  "strip s = rev (dropWhile isspace (rev (dropWhile isspace s)))"

definition is_ascii_letter :: "char \<Rightarrow> bool" where
  "is_ascii_letter c \<longleftrightarrow> c \<in> set (ascii_uppercase @ ascii_lowercase)"

definition latin1_alnum :: string where
  \<comment> \<open>the code points from U+0080 to U+00FF of which \<open>str.isalnum\<close> holds\<close>
  "latin1_alnum =
     [CHR 0xAA, CHR 0xB2, CHR 0xB3, CHR 0xB5, CHR 0xB9, CHR 0xBA, CHR 0xBC, CHR 0xBD,
      CHR 0xBE, CHR 0xC0, CHR 0xC1, CHR 0xC2, CHR 0xC3, CHR 0xC4, CHR 0xC5, CHR 0xC6,
      CHR 0xC7, CHR 0xC8, CHR 0xC9, CHR 0xCA, CHR 0xCB, CHR 0xCC, CHR 0xCD, CHR 0xCE,
      CHR 0xCF, CHR 0xD0, CHR 0xD1, CHR 0xD2, CHR 0xD3, CHR 0xD4, CHR 0xD5, CHR 0xD6,
      CHR 0xD8, CHR 0xD9, CHR 0xDA, CHR 0xDB, CHR 0xDC, CHR 0xDD, CHR 0xDE, CHR 0xDF,
      CHR 0xE0, CHR 0xE1, CHR 0xE2, CHR 0xE3, CHR 0xE4, CHR 0xE5, CHR 0xE6, CHR 0xE7,
      CHR 0xE8, CHR 0xE9, CHR 0xEA, CHR 0xEB, CHR 0xEC, CHR 0xED, CHR 0xEE, CHR 0xEF,
      CHR 0xF0, CHR 0xF1, CHR 0xF2, CHR 0xF3, CHR 0xF4, CHR 0xF5, CHR 0xF6, CHR 0xF8,
      CHR 0xF9, CHR 0xFA, CHR 0xFB, CHR 0xFC, CHR 0xFD, CHR 0xFE, CHR 0xFF]"

definition is_word_char :: "char \<Rightarrow> bool" where
  \<comment> \<open>The class \<open>\w\<close> of a \<open>str\<close> pattern.\<close>
  "is_word_char c \<longleftrightarrow>
     c \<in> set (''0123456789'' @ ascii_uppercase @ ''_'' @ ascii_lowercase @ latin1_alnum)"

fun join :: "string \<Rightarrow> string list \<Rightarrow> string" where
  "join sep [] = []"
| "join sep [x] = x"
| "join sep (x # y # ys) = x @ sep @ join sep (y # ys)"

definition kept_char :: "char \<Rightarrow> bool" where
  \<comment> \<open>the class \<open>[A-Za-z\-\']\<close>\<close>
  "kept_char c \<longleftrightarrow> is_ascii_letter c \<or> c = CHR ''-'' \<or> c = CHR 0x27"

definition clean_word :: "string \<Rightarrow> string" where
  \<comment> \<open>\<open>re.sub(r"[^A-Za-z\-\']", "", (w or "")).strip()\<close>\<close>
  "clean_word w = strip (filter kept_char w)"

section \<open>Roots cheat sheet and the root matcher\<close>

text \<open>
  The keys of \<open>COMMON_ROOTS\<close>, in the order of the dictionary literal. The values are
  display text only.
\<close>

definition COMMON_ROOTS_keys :: "string list" where
  "COMMON_ROOTS_keys =
     [''phono'', ''photo'', ''tele'', ''geo'', ''auto'', ''chrono'', ''micro'', ''macro'',
      ''graph'', ''bio'', ''psycho'', ''hydro'', ''logos'',
      ''port'', ''scrib'', ''script'', ''spect'', ''vid'', ''vis'', ''dict'', ''ject'',
      ''rupt'', ''cred'', ''terra'', ''aqua'', ''bene'', ''mal'', ''mater'', ''pater'',
      ''urb'', ''vac'', ''voc'', ''ann'', ''mort'',
      ''pre'', ''re'', ''un'', ''mis'', ''anti'', ''sub'', ''inter'', ''trans'', ''tri'',
      ''ful'', ''less'', ''ology'', ''ist'']"

text \<open>
  \<open>sorted(keys, key=len, reverse=True)\<close>: by descending length, keys of one length in
  their original order. The compiled pattern is the alternation of these literals, tried
  in this order; it is kept as the list of its alternatives.
\<close>

definition root_regex :: "string list \<Rightarrow> string list" where
  "root_regex keys = sort_key (\<lambda>k. - int (length k)) keys"

definition ROOT_REGEX :: "string list" where
  "ROOT_REGEX = root_regex COMMON_ROOTS_keys"

definition match_at :: "string \<Rightarrow> string \<Rightarrow> bool" where
  \<comment> \<open>The literal \<open>p\<close> matches at the start of \<open>w\<close>, under \<open>re.IGNORECASE\<close>.\<close>
  "match_at p w \<longleftrightarrow> length p \<le> length w \<and> lower (take (length p) w) = lower p"

text \<open>
  \<open>finditer\<close>: the matches from left to right, each as \<open>(m.start(), m.group(0))\<close>. At a
  position the first alternative that matches is taken and the scan goes on after the
  match; where none matches it goes on one character later. The alternatives are
  non-empty literals.
\<close>

function finditer :: "string list \<Rightarrow> nat \<Rightarrow> string \<Rightarrow> (nat \<times> string) list" where
  "finditer alts i [] = []"
| "finditer alts i (c # cs) =
     (case find (\<lambda>p. match_at p (c # cs)) alts of
        None \<Rightarrow> finditer alts (Suc i) cs
      | Some p \<Rightarrow> (i, take (length p) (c # cs))
                  # finditer alts (Suc i + (length p - 1)) (drop (length p - 1) cs))"
  by pat_completeness auto
termination
  by (relation "measure (\<lambda>(alts, i, w). length w)") auto

definition find_roots_with :: "string list \<Rightarrow> string \<Rightarrow> string list" where
  \<comment> \<open>\<open>sorted(set(m.group(0).lower() for m in ROOT_REGEX.finditer(w)))\<close>\<close>
  "find_roots_with keys w =
     sort (remdups (map (\<lambda>m. lower (snd m)) (finditer (root_regex keys) 0 w)))"

definition find_roots :: "string \<Rightarrow> string list" where
  "find_roots w = find_roots_with COMMON_ROOTS_keys w"

definition occurs_at :: "string \<Rightarrow> string \<Rightarrow> nat \<Rightarrow> bool" where
  \<comment> \<open>\<open>p\<close> occurs in \<open>w\<close> at offset \<open>i\<close>, case-insensitively.\<close>
  "occurs_at p w i \<longleftrightarrow> match_at p (drop i w)"

section \<open>Local dataset\<close>

record Entry =
  word :: string
  etymology :: string
  "notes" :: string

definition local_map :: "Entry list \<Rightarrow> (string \<rightharpoonup> Entry)" where
  \<comment> \<open>\<open>{r["word"].lower(): r for r in local_rows}\<close>: a later row replaces an earlier one.\<close>
  "local_map local_rows = foldl (\<lambda>m r. m(lower (word r) \<mapsto> r)) Map.empty local_rows"

section \<open>Etymology sections of a parsed page\<close>

text \<open>
  The tree BeautifulSoup builds: a node is a string or a tag with a name and its
  children. \<open>extract_etymology_sections\<close> is modelled from the parsed tree on; the parser
  itself is a parameter of the pipeline.
\<close>

datatype node = NavigableString string | Tag string "node list"

fun name_of :: "node \<Rightarrow> string option" where
  \<comment> \<open>\<open>getattr(sib, "name", None)\<close>\<close>
  "name_of (NavigableString s) = None"
| "name_of (Tag n kids) = Some n"

fun all_strings :: "node \<Rightarrow> string list" where
  "all_strings (NavigableString s) = [s]"
| "all_strings (Tag n kids) = concat (map all_strings kids)"

definition get_text :: "node \<Rightarrow> string" where
  \<comment> \<open>\<open>get_text(" ", strip=True)\<close>\<close>
  "get_text n = join '' '' (filter (\<lambda>s. s \<noteq> []) (map strip (all_strings n)))"

definition heading_names :: "string list" where
  "heading_names = [''h2'', ''h3'', ''h4'']"

definition block_names :: "string list" where
  "block_names = [''p'', ''ul'', ''ol'', ''dl'']"

definition level_of :: "string \<Rightarrow> nat" where
  \<comment> \<open>\<open>int(name[1])\<close>, for a name of \<open>heading_names\<close>: the value of the digit\<close>
  "level_of name = length (takeWhile (\<lambda>d. d \<noteq> name ! 1) ''0123456789'')"

text \<open>
  \<open>soup.find_all(["h2", "h3", "h4"])\<close>: the tags of these names in document order, each
  with its \<open>next_siblings\<close>.
\<close>

function find_all_headings :: "node list \<Rightarrow> (node \<times> node list) list" where
  "find_all_headings [] = []"
| "find_all_headings (NavigableString s # sibs) = find_all_headings sibs"
| "find_all_headings (Tag n kids # sibs) =
     (if n \<in> set heading_names then [(Tag n kids, sibs)] else [])
     @ find_all_headings kids @ find_all_headings sibs"
  by pat_completeness auto
termination
  by (relation "measure (size_list size)") auto

definition word_at :: "string \<Rightarrow> nat \<Rightarrow> bool" where
  \<comment> \<open>\<open>\bEtymology\b\<close> matches at offset \<open>i\<close> of \<open>t\<close>, under \<open>re.IGNORECASE\<close>.\<close>
  "word_at t i \<longleftrightarrow>
     i + 9 \<le> length t \<and> lower (take 9 (drop i t)) = ''etymology''
     \<and> (i = 0 \<or> \<not> is_word_char (t ! (i - 1)))
     \<and> (i + 9 = length t \<or> \<not> is_word_char (t ! (i + 9)))"

definition search_etymology :: "string \<Rightarrow> bool" where
  \<comment> \<open>\<open>re.search(r"\bEtymology\b", heading_text, re.IGNORECASE)\<close>\<close>
  "search_etymology t = list_ex (word_at t) [0..<length t]"

text \<open>The loop over \<open>h.next_siblings\<close>, with its \<open>break\<close>.\<close>

fun collect_texts :: "nat \<Rightarrow> node list \<Rightarrow> string list" where
  "collect_texts current_level [] = []"
| "collect_texts current_level (sib # sibs) =
     (case name_of sib of
        None \<Rightarrow> collect_texts current_level sibs
      | Some name \<Rightarrow>
          if name \<in> set heading_names \<and> level_of name \<le> current_level then []
          else (if name \<in> set block_names then [get_text sib] else [])
               @ collect_texts current_level sibs)"

record Section =
  heading :: string
  "text" :: string

fun node_level :: "node \<Rightarrow> nat" where
  \<comment> \<open>\<open>int(h.name[1])\<close>; \<open>find_all\<close> yields tags only.\<close>
  "node_level (Tag n kids) = level_of n"
| "node_level (NavigableString s) = 0"

fun sections_from :: "(node \<times> node list) list \<Rightarrow> Section list" where
  "sections_from [] = []"
| "sections_from ((h, sibs) # hs) =
     (let heading_text = get_text h
      in if search_etymology heading_text
         then (let texts = collect_texts (node_level h) sibs
               in if texts \<noteq> []
                  then \<lparr>heading = heading_text, text = join ''\<newline>\<newline>'' texts\<rparr>
                       # sections_from hs
                  else sections_from hs)
         else sections_from hs)"

definition extract_etymology_sections :: "node list \<Rightarrow> Section list" where
  "extract_etymology_sections soup = sections_from (find_all_headings soup)"






section \<open>Online lookup\<close>

text \<open>
  The remote service is a parameter: it answers each request given the requests made so
  far (the last one being the current request), so it may answer one request differently
  each time. Every function that may call it takes the log of the requests made and
  returns the extended log. A reply is either a failure of \<open>requests.get\<close> (no
  connection, timeout) or a status code with the body as \<open>resp.json()\<close> decodes it
  (\<open>None\<close> when the body is not JSON).
\<close>

datatype json = JNull | JBool bool | JNum int | JStr string
  | JArr "json list" | JObj "(string \<times> json) list"

datatype request = Parse string | Opensearch string

datatype reply = Failure | Response nat "json option"

type_synonym service = "request list \<Rightarrow> reply"

datatype exn = RequestException | HTTPError | JSONDecodeError
  | AttributeError | TypeError | KeyError | CsvError

fun truthy :: "json \<Rightarrow> bool" where
  "truthy JNull = False"
| "truthy (JBool b) = b"
| "truthy (JNum n) = (n \<noteq> 0)"
| "truthy (JStr s) = (s \<noteq> [])"
| "truthy (JArr xs) = (xs \<noteq> [])"
| "truthy (JObj kvs) = (kvs \<noteq> [])"

fun py_get :: "json \<Rightarrow> string \<Rightarrow> exn + json" where
  \<comment> \<open>\<open>x.get(key)\<close>: only a dict has the method.\<close>
  "py_get (JObj kvs) k = Inr (case map_of kvs k of None \<Rightarrow> JNull | Some v \<Rightarrow> v)"
| "py_get x k = Inl AttributeError"

definition http_get_json :: "service \<Rightarrow> request list \<Rightarrow> request \<Rightarrow> (exn + json) \<times> request list" where
  \<comment> \<open>\<open>requests.get(...)\<close>, \<open>resp.raise_for_status()\<close>, \<open>resp.json()\<close>\<close>
  "http_get_json net log req =
     (let log' = log @ [req]
      in (case net log' of
            Failure \<Rightarrow> Inl RequestException
          | Response status body \<Rightarrow>
              if 400 \<le> status \<and> status < 600 then Inl HTTPError
              else (case body of None \<Rightarrow> Inl JSONDecodeError | Some data \<Rightarrow> Inr data),
          log'))"

definition parse_body :: "json \<Rightarrow> exn + json" where
  \<comment> \<open>\<open>(data.get("parse") or {}).get("text")\<close>\<close>
  "parse_body data =
     (case py_get data ''parse'' of
        Inl e \<Rightarrow> Inl e
      | Inr p \<Rightarrow> py_get (if truthy p then p else JObj []) ''text'')"

definition wiktionary_parse :: "service \<Rightarrow> request list \<Rightarrow> string \<Rightarrow> (exn + json) \<times> request list" where
  "wiktionary_parse net log title =
     (case http_get_json net log (Parse title) of
        (Inl e, log') \<Rightarrow> (Inr JNull, log')
      | (Inr data, log') \<Rightarrow>
          (case parse_body data of Inl e \<Rightarrow> (Inr JNull, log') | Inr t \<Rightarrow> (Inr t, log')))"

text \<open>
  The loop \<open>for t in titles\<close> of \<open>wiktionary_opensearch\<close>, on a list: an item that is not
  a string has no \<open>lower\<close>.
\<close>

fun first_equal :: "string \<Rightarrow> json list \<Rightarrow> exn + string option" where
  "first_equal low [] = Inr None"
| "first_equal low (JStr t # ts) = (if lower t = low then Inr (Some t) else first_equal low ts)"
| "first_equal low (x # ts) = Inl AttributeError"

fun json_string :: "json \<Rightarrow> exn + string option" where
  \<comment> \<open>the value returned, which the loop has seen to be a string\<close>
  "json_string (JStr t) = Inr (Some t)"
| "json_string x = Inl AttributeError"

definition opensearch_body :: "string \<Rightarrow> json \<Rightarrow> exn + string option" where
  "opensearch_body w data =
     (let titles = (case data of
                      JArr xs \<Rightarrow> (if length xs \<ge> 2 then xs ! 1 else JArr [])
                    | _ \<Rightarrow> JArr []);
          low = lower w
      in case titles of
           JArr ts \<Rightarrow>
             (case first_equal low ts of
                Inl e \<Rightarrow> Inl e
              | Inr (Some t) \<Rightarrow> Inr (Some t)
              | Inr None \<Rightarrow> (if ts \<noteq> [] then json_string (hd ts) else Inr None))
         | JStr s \<Rightarrow>
             (case first_equal low (map (\<lambda>c. JStr [c]) s) of
                Inl e \<Rightarrow> Inl e
              | Inr (Some t) \<Rightarrow> Inr (Some t)
              | Inr None \<Rightarrow> (if s \<noteq> [] then Inr (Some [hd s]) else Inr None))
         | JObj kvs \<Rightarrow>
             (case first_equal low (map (\<lambda>kv. JStr (fst kv)) kvs) of
                Inl e \<Rightarrow> Inl e
              | Inr (Some t) \<Rightarrow> Inr (Some t)
              | Inr None \<Rightarrow> (if kvs \<noteq> [] then Inl KeyError else Inr None))
         | _ \<Rightarrow> Inl TypeError)"

definition wiktionary_opensearch ::
  "service \<Rightarrow> request list \<Rightarrow> string \<Rightarrow> (exn + string option) \<times> request list" where
  "wiktionary_opensearch net log w =
     (case http_get_json net log (Opensearch w) of
        (Inl e, log') \<Rightarrow> (Inr None, log')
      | (Inr data, log') \<Rightarrow>
          (case opensearch_body w data of
             Inl e \<Rightarrow> (Inr None, log')
           | Inr t \<Rightarrow> (Inr t, log')))"

text \<open>The loop over the three candidate titles, returning at the first page found.\<close>

fun try_candidates ::
  "service \<Rightarrow> request list \<Rightarrow> string list \<Rightarrow> (exn + (json \<times> string) option) \<times> request list" where
  "try_candidates net log [] = (Inr None, log)"
| "try_candidates net log (cand # cands) =
     (case wiktionary_parse net log cand of
        (Inl e, log') \<Rightarrow> (Inl e, log')
      | (Inr html, log') \<Rightarrow>
          if truthy html then (Inr (Some (html, cand)), log')
          else try_candidates net log' cands)"

definition fetch_etymology_html ::
  "service \<Rightarrow> request list \<Rightarrow> string \<Rightarrow> (exn + json \<times> string option) \<times> request list" where
  "fetch_etymology_html net log w =
     (case try_candidates net log [lower w, capitalize w, w] of
        (Inl e, log1) \<Rightarrow> (Inl e, log1)
      | (Inr (Some (html, cand)), log1) \<Rightarrow> (Inr (html, Some cand), log1)
      | (Inr None, log1) \<Rightarrow>
          (case wiktionary_opensearch net log1 w of
             (Inl e, log2) \<Rightarrow> (Inl e, log2)
           | (Inr None, log2) \<Rightarrow> (Inr (JNull, None), log2)
           | (Inr (Some title), log2) \<Rightarrow>
               if title \<noteq> [] then
                 (case wiktionary_parse net log2 title of
                    (Inl e, log3) \<Rightarrow> (Inl e, log3)
                  | (Inr html, log3) \<Rightarrow>
                      if truthy html then (Inr (html, Some title), log3)
                      else (Inr (JNull, None), log3))
               else (Inr (JNull, None), log2)))"

section \<open>The "Explain origins" handler\<close>

text \<open>
  What the handler shows, as a value: one constructor for each branch, carrying what the
  branch displays. The hints from common roots are shown on every branch but the first
  two. The HTML parser is the parameter \<open>soup_of\<close>; markup that is not a string makes
  BeautifulSoup raise, an exception the handler does not catch.
\<close>

datatype outcome =
    InvalidInput
  | FoundLocal Entry
  | HeuristicOnly "string list"
  | RemoteNotFound "string list"
  | RemoteFound "string list" "string option" "Section list"

definition explain_not_local ::
  "(string \<Rightarrow> node list) \<Rightarrow> service \<Rightarrow> string \<Rightarrow> bool \<Rightarrow> (exn + outcome) \<times> request list" where
  \<comment> \<open>the branch "Not in local database."\<close>
  "explain_not_local soup_of net w use_online =
     (let matches = find_roots w
      in if use_online then
           (case fetch_etymology_html net [] w of
              (Inl e, log) \<Rightarrow> (Inl e, log)
            | (Inr (html, title), log) \<Rightarrow>
                if \<not> truthy html then (Inr (RemoteNotFound matches), log)
                else (case html of
                        JStr s \<Rightarrow>
                          (Inr (RemoteFound matches title
                                  (extract_etymology_sections (soup_of s))), log)
                      | _ \<Rightarrow> (Inl TypeError, log)))
         else (Inr (HeuristicOnly matches), []))"

definition resolve ::
  "(string \<Rightarrow> node list) \<Rightarrow> service \<Rightarrow> Entry list \<Rightarrow> string \<Rightarrow> bool
     \<Rightarrow> (exn + outcome) \<times> request list" where
  "resolve soup_of net local_rows raw use_online =
     (let w = clean_word raw
      in if w = [] then (Inr InvalidInput, [])
         else
           (let key = lower w
            in case local_map local_rows key of
                 None \<Rightarrow> explain_not_local soup_of net w use_online
               | Some row \<Rightarrow>
                   if etymology row \<noteq> [] then (Inr (FoundLocal row), [])
                   else explain_not_local soup_of net w use_online))"

section \<open>The CSV file of the dataset\<close>

text \<open>
  The \<open>csv\<close> module with its default dialect: delimiter \<open>,\<close>, quote character \<open>"\<close>
  doubled inside a quoted field, minimal quoting, line terminator CR LF, no escape
  character, not strict. A file is its decoded text. Both functions open it with
  \<open>newline=""\<close>: the text is written and read as it is, and reading yields the lines with
  their ends, a line ending at LF, at CR LF, or at a CR that no LF follows. The reader's
  limit on the size of a field is left out, and a NUL character is read as any other
  character (as from Python 3.11 on).
\<close>

abbreviation CR :: char where "CR \<equiv> CHR 0x0D"
abbreviation LF :: char where "LF \<equiv> CHR 0x0A"
abbreviation DQ :: char where "DQ \<equiv> CHR 0x22"
abbreviation COMMA :: char where "COMMA \<equiv> CHR 0x2C"

fun lines_from :: "string \<Rightarrow> string \<Rightarrow> string list" where
  \<comment> \<open>the lines of a text, \<open>cur\<close> being the part of the current line already read\<close>
  "lines_from cur [] = (if cur = [] then [] else [cur])"
| "lines_from cur (c # cs) =
     (if c = LF then (cur @ [c]) # lines_from [] cs
      else if c = CR then
        (case cs of
           [] \<Rightarrow> [cur @ [c]]
         | d # ds \<Rightarrow> if d = LF then (cur @ [c, d]) # lines_from [] ds
                     else (cur @ [c]) # lines_from [] cs)
      else lines_from (cur @ [c]) cs)"

definition readlines :: "string \<Rightarrow> string list" where
  "readlines txt = lines_from [] txt"

datatype parser_state =
  START_RECORD | START_FIELD | IN_FIELD | IN_QUOTED_FIELD | QUOTE_IN_QUOTED_FIELD | EAT_CRNL

record Reader =
  rstate :: parser_state
  rfields :: "string list"
  rfield :: string

definition parse_reset :: Reader where
  "parse_reset = \<lparr>rstate = START_RECORD, rfields = [], rfield = []\<rparr>"

definition parse_save_field :: "Reader \<Rightarrow> Reader" where
  "parse_save_field rd = rd\<lparr>rfields := rfields rd @ [rfield rd], rfield := []\<rparr>"

definition parse_add_char :: "Reader \<Rightarrow> char \<Rightarrow> Reader" where
  "parse_add_char rd c = rd\<lparr>rfield := rfield rd @ [c]\<rparr>"

text \<open>One step of the parser; \<open>None\<close> is the end of a line.\<close>

definition start_field :: "Reader \<Rightarrow> char option \<Rightarrow> exn + Reader" where
  \<comment> \<open>the case \<open>START_FIELD\<close>, which \<open>START_RECORD\<close> falls through to\<close>
  "start_field rd c =
     (case c of
        None \<Rightarrow> Inr ((parse_save_field rd)\<lparr>rstate := START_RECORD\<rparr>)
      | Some ch \<Rightarrow>
          if ch = LF \<or> ch = CR then Inr ((parse_save_field rd)\<lparr>rstate := EAT_CRNL\<rparr>)
          else if ch = DQ then Inr (rd\<lparr>rstate := IN_QUOTED_FIELD\<rparr>)
          else if ch = COMMA then Inr (parse_save_field rd)
          else Inr ((parse_add_char rd ch)\<lparr>rstate := IN_FIELD\<rparr>))"

definition parse_process_char :: "Reader \<Rightarrow> char option \<Rightarrow> exn + Reader" where
  "parse_process_char rd c =
     (case rstate rd of
        START_RECORD \<Rightarrow>
          (case c of
             None \<Rightarrow> Inr rd
           | Some ch \<Rightarrow>
               if ch = LF \<or> ch = CR then Inr (rd\<lparr>rstate := EAT_CRNL\<rparr>)
               else start_field (rd\<lparr>rstate := START_FIELD\<rparr>) c)
      | START_FIELD \<Rightarrow> start_field rd c
      | IN_FIELD \<Rightarrow>
          (case c of
             None \<Rightarrow> Inr ((parse_save_field rd)\<lparr>rstate := START_RECORD\<rparr>)
           | Some ch \<Rightarrow>
               if ch = LF \<or> ch = CR then Inr ((parse_save_field rd)\<lparr>rstate := EAT_CRNL\<rparr>)
               else if ch = COMMA then Inr ((parse_save_field rd)\<lparr>rstate := START_FIELD\<rparr>)
               else Inr (parse_add_char rd ch))
      | IN_QUOTED_FIELD \<Rightarrow>
          (case c of
             None \<Rightarrow> Inr rd
           | Some ch \<Rightarrow>
               if ch = DQ then Inr (rd\<lparr>rstate := QUOTE_IN_QUOTED_FIELD\<rparr>)
               else Inr (parse_add_char rd ch))
      | QUOTE_IN_QUOTED_FIELD \<Rightarrow>
          (case c of
             None \<Rightarrow> Inr ((parse_save_field rd)\<lparr>rstate := START_RECORD\<rparr>)
           | Some ch \<Rightarrow>
               if ch = DQ then Inr ((parse_add_char rd ch)\<lparr>rstate := IN_QUOTED_FIELD\<rparr>)
               else if ch = COMMA then Inr ((parse_save_field rd)\<lparr>rstate := START_FIELD\<rparr>)
               else if ch = LF \<or> ch = CR then Inr ((parse_save_field rd)\<lparr>rstate := EAT_CRNL\<rparr>)
               else Inr ((parse_add_char rd ch)\<lparr>rstate := IN_FIELD\<rparr>))
      | EAT_CRNL \<Rightarrow>
          (case c of
             None \<Rightarrow> Inr (rd\<lparr>rstate := START_RECORD\<rparr>)
           | Some ch \<Rightarrow> if ch = LF \<or> ch = CR then Inr rd else Inl CsvError))"

definition step :: "exn + Reader \<Rightarrow> char option \<Rightarrow> exn + Reader" where
  "step x c = (case x of Inl e \<Rightarrow> Inl e | Inr rd \<Rightarrow> parse_process_char rd c)"

definition process_line :: "Reader \<Rightarrow> string \<Rightarrow> exn + Reader" where
  \<comment> \<open>the characters of the line, then its end\<close>
  "process_line rd line = foldl step (Inr rd) (map Some line @ [None])"

text \<open>
  The rows the reader yields before it stops, and the error it stops with, if any. A
  row is complete when the parser is back at \<open>START_RECORD\<close> at the end of a line; at the
  end of the input a pending field is saved.
\<close>

fun reader_rows :: "Reader \<Rightarrow> string list \<Rightarrow> string list list \<times> exn option" where
  "reader_rows rd [] =
     (if rfield rd \<noteq> [] \<or> rstate rd = IN_QUOTED_FIELD
      then ([rfields (parse_save_field rd)], None) else ([], None))"
| "reader_rows rd (line # ls) =
     (case process_line rd line of
        Inl e \<Rightarrow> ([], Some e)
      | Inr rd' \<Rightarrow>
          if rstate rd' = START_RECORD
          then (case reader_rows parse_reset ls of (rows, err) \<Rightarrow> (rfields rd' # rows, err))
          else reader_rows rd' ls)"

definition csv_reader :: "string \<Rightarrow> string list list \<times> exn option" where
  "csv_reader txt = reader_rows parse_reset (readlines txt)"

text \<open>
  A row of \<open>DictReader\<close>: \<open>dict(zip(fieldnames, row))\<close>, the fields the row lacks set to
  \<open>None\<close>. (The fields beyond the header go under the key \<open>None\<close>, which is not read.)
\<close>

definition DictReader_row :: "string list \<Rightarrow> string list \<Rightarrow> (string \<rightharpoonup> string option)" where
  "DictReader_row fieldnames row =
     foldl (\<lambda>d key. d(key \<mapsto> None))
       (foldl (\<lambda>d kv. d(fst kv \<mapsto> Some (snd kv))) Map.empty (zip fieldnames row))
       (drop (length row) fieldnames)"

definition get_or_empty :: "(string \<rightharpoonup> string option) \<Rightarrow> string \<Rightarrow> string option" where
  \<comment> \<open>\<open>r.get(key, "")\<close>\<close>
  "get_or_empty r key = (case r key of None \<Rightarrow> Some [] | Some v \<Rightarrow> v)"

text \<open>
  The loop of \<open>load_db_from_path\<close> over the rows after the header; \<open>DictReader\<close> passes
  over the empty rows. \<open>None.strip()\<close> raises \<open>AttributeError\<close>; \<open>err\<close> is the error the
  reader stops with after the last row.
\<close>

fun load_rows :: "string list \<Rightarrow> exn option \<Rightarrow> string list list \<Rightarrow> exn + Entry list" where
  "load_rows fieldnames err [] = (case err of None \<Rightarrow> Inr [] | Some e \<Rightarrow> Inl e)"
| "load_rows fieldnames err (row # rows) =
     (if row = [] then load_rows fieldnames err rows
      else
        (let r = DictReader_row fieldnames row
         in case r ''word'' of
              Some (Some w) \<Rightarrow>
                if w \<noteq> [] then
                  (case (get_or_empty r ''etymology'', get_or_empty r ''notes'') of
                     (Some e, Some n) \<Rightarrow>
                       (case load_rows fieldnames err rows of
                          Inl x \<Rightarrow> Inl x
                        | Inr es \<Rightarrow>
                            Inr (\<lparr>word = strip w, etymology = strip e, notes = strip n\<rparr> # es))
                   | _ \<Rightarrow> Inl AttributeError)
                else load_rows fieldnames err rows
            | _ \<Rightarrow> load_rows fieldnames err rows))"

type_synonym files = "string \<rightharpoonup> string"

definition load_db_from_path :: "files \<Rightarrow> string \<Rightarrow> exn + Entry list" where
  \<comment> \<open>a missing file is \<open>FileNotFoundError\<close>, which is caught\<close>
  "load_db_from_path fs path =
     (case fs path of
        None \<Rightarrow> Inr []
      | Some txt \<Rightarrow>
          (case csv_reader txt of
             ([], err) \<Rightarrow> (case err of None \<Rightarrow> Inr [] | Some e \<Rightarrow> Inl e)
           | (fieldnames # rows, err) \<Rightarrow> load_rows fieldnames err rows))"








section \<open>Notions used in the properties\<close>

text \<open>A remote service that is down, and a parser that finds nothing, for the examples.\<close>

definition no_service :: service where
  \<comment> \<open>a network that is down\<close>
  "no_service log = Failure"

definition no_soup :: "string \<Rightarrow> node list" where
  "no_soup s = []"

text \<open>A page with the tags \<open>h5\<close> and \<open>h6\<close> renamed to \<open>div\<close>, at every depth.\<close>

fun as_div :: "node \<Rightarrow> node" where
  "as_div (NavigableString s) = NavigableString s"
| "as_div (Tag n kids) = Tag (if n \<in> set [''h5'', ''h6''] then ''div'' else n) (map as_div kids)"








section \<open>The local dataset and the handler\<close>

lemma local_map_snoc:
  "local_map (rows @ [r]) = (local_map rows)(lower (word r) \<mapsto> r)"
  by (simp add: local_map_def)

text \<open>The entry found under a key is the last one of the dataset with that key.\<close>

lemma local_map_Some_iff:
  "local_map rows k = Some r \<longleftrightarrow>
     (\<exists>xs ys. rows = xs @ r # ys \<and> lower (word r) = k \<and> (\<forall>e \<in> set ys. lower (word e) \<noteq> k))"
proof (induction rows rule: rev_induct)
  case Nil
  then show ?case by (simp add: local_map_def)
next
  case (snoc x rows)
  show ?case
  proof (cases "lower (word x) = k")
    case True
    have "(\<exists>xs ys. rows @ [x] = xs @ r # ys \<and> lower (word r) = k
             \<and> (\<forall>e \<in> set ys. lower (word e) \<noteq> k)) \<longleftrightarrow> x = r"
    proof
      assume "\<exists>xs ys. rows @ [x] = xs @ r # ys \<and> lower (word r) = k
                \<and> (\<forall>e \<in> set ys. lower (word e) \<noteq> k)"
      then obtain xs ys where eq: "rows @ [x] = xs @ r # ys"
        and no: "\<forall>e \<in> set ys. lower (word e) \<noteq> k" by blast
      show "x = r"
      proof (cases ys rule: rev_cases)
        case Nil
        with eq show ?thesis by simp
      next
        case (snoc zs z)
        with eq have "z = x" by simp
        with snoc no True show ?thesis by simp
      qed
    next
      assume "x = r"
      with True have "rows @ [x] = rows @ r # [] \<and> lower (word r) = k
                        \<and> (\<forall>e \<in> set []. lower (word e) \<noteq> k)"
        by simp
      then show "\<exists>xs ys. rows @ [x] = xs @ r # ys \<and> lower (word r) = k
                   \<and> (\<forall>e \<in> set ys. lower (word e) \<noteq> k)"
        by blast
    qed
    with True show ?thesis by (auto simp add: local_map_snoc)
  next
    case False
    have "(\<exists>xs ys. rows @ [x] = xs @ r # ys \<and> lower (word r) = k
             \<and> (\<forall>e \<in> set ys. lower (word e) \<noteq> k))
          \<longleftrightarrow> (\<exists>xs ys. rows = xs @ r # ys \<and> lower (word r) = k
                 \<and> (\<forall>e \<in> set ys. lower (word e) \<noteq> k))"
    proof
      assume "\<exists>xs ys. rows @ [x] = xs @ r # ys \<and> lower (word r) = k
                \<and> (\<forall>e \<in> set ys. lower (word e) \<noteq> k)"
      then obtain xs ys where eq: "rows @ [x] = xs @ r # ys" and k: "lower (word r) = k"
        and no: "\<forall>e \<in> set ys. lower (word e) \<noteq> k" by blast
      show "\<exists>xs ys. rows = xs @ r # ys \<and> lower (word r) = k
              \<and> (\<forall>e \<in> set ys. lower (word e) \<noteq> k)"
      proof (cases ys rule: rev_cases)
        case Nil
        with eq k False show ?thesis by simp
      next
        case (snoc zs z)
        with eq have "rows = xs @ r # zs" by simp
        with snoc no k show ?thesis by auto
      qed
    next
      assume "\<exists>xs ys. rows = xs @ r # ys \<and> lower (word r) = k
                \<and> (\<forall>e \<in> set ys. lower (word e) \<noteq> k)"
      then obtain xs ys where eq: "rows = xs @ r # ys" and k: "lower (word r) = k"
        and no: "\<forall>e \<in> set ys. lower (word e) \<noteq> k" by blast
      then have "rows @ [x] = xs @ r # (ys @ [x]) \<and> lower (word r) = k
                   \<and> (\<forall>e \<in> set (ys @ [x]). lower (word e) \<noteq> k)"
        using False by simp
      then show "\<exists>xs ys. rows @ [x] = xs @ r # ys \<and> lower (word r) = k
                   \<and> (\<forall>e \<in> set ys. lower (word e) \<noteq> k)"
        by blast
    qed
    with False snoc.IH show ?thesis by (simp add: local_map_snoc)
  qed
qed

lemma local_map_last:
  assumes "\<forall>e \<in> set ys. lower (word e) \<noteq> lower (word r)"
  shows "local_map (xs @ r # ys) (lower (word r)) = Some r"
  using assms local_map_Some_iff by blast

lemma local_map_SomeD:
  "local_map rows k = Some r \<Longrightarrow> r \<in> set rows \<and> lower (word r) = k"
  by (auto simp add: local_map_Some_iff)

lemma resolve_found:
  assumes "clean_word raw \<noteq> []"
    and "local_map rows (lower (clean_word raw)) = Some e"
    and "etymology e \<noteq> []"
  shows "resolve soup_of net rows raw use_online = (Inr (FoundLocal e), [])"
  using assms by (simp add: resolve_def Let_def)

lemma resolve_FoundLocalD:
  assumes "fst (resolve soup_of net rows raw use_online) = Inr (FoundLocal e)"
  shows "local_map rows (lower (clean_word raw)) = Some e"
  using assms
  by (auto simp add: resolve_def explain_not_local_def Let_def
      split: if_splits option.splits prod.splits sum.splits json.splits)

lemma resolve_not_local:
  assumes "clean_word raw \<noteq> []"
    and "\<forall>e \<in> set rows. lower (word e) = lower (clean_word raw) \<longrightarrow> etymology e = []"
  shows "resolve soup_of net rows raw use_online
           = explain_not_local soup_of net (clean_word raw) use_online"
proof (cases "local_map rows (lower (clean_word raw))")
  case None
  with assms(1) show ?thesis by (simp add: resolve_def Let_def)
next
  case (Some r)
  with local_map_SomeD assms(2) have "etymology r = []" by blast
  with Some assms(1) show ?thesis by (simp add: resolve_def Let_def)
qed

lemma strip_id:
  assumes "s = [] \<or> (\<not> isspace (hd s) \<and> \<not> isspace (last s))"
  shows "strip s = s"
proof (cases s)
  case Nil
  then show ?thesis by (simp add: strip_def)
next
  case (Cons c cs)
  with assms have h: "\<not> isspace c" and l: "\<not> isspace (last s)" by auto
  from h Cons have "dropWhile isspace s = s" by simp
  moreover have "dropWhile isspace (rev s) = rev s"
  proof (cases "rev s")
    case Nil
    then show ?thesis by simp
  next
    case rs: (Cons a as)
    then have "a = hd (rev s)" by simp
    also have "\<dots> = last s" by (simp add: hd_rev)
    finally have "\<not> isspace a" using l by simp
    then show ?thesis unfolding rs by simp
  qed
  ultimately show ?thesis by (simp add: strip_def)
qed

lemma kept_char_not_space: "kept_char c \<Longrightarrow> \<not> isspace c"
  by (auto simp add: kept_char_def is_ascii_letter_def isspace_def whitespace_def
      ascii_uppercase_def ascii_lowercase_def)

lemma clean_word_id:
  assumes "list_all kept_char w"
  shows "clean_word w = w"
proof -
  from assms have f: "filter kept_char w = w"
    by (simp add: list_all_iff)
  have "w = [] \<or> (\<not> isspace (hd w) \<and> \<not> isspace (last w))"
    using assms kept_char_not_space by (cases w) (auto simp add: list_all_iff)
  then show ?thesis unfolding clean_word_def f by (rule strip_id)
qed

text \<open>
  C1, as amended. Let \<open>e\<close> be an entry of the dataset with a non-empty etymology that no
  later entry duplicates (no later entry has the same lower-cased word). Then for every
  input whose normalized form is non-empty and equals the word of \<open>e\<close> case-insensitively,
  the handler answers \<open>FoundLocal\<close> with exactly \<open>e\<close>, whether online lookup is enabled or
  not, for every remote service and without any request to it. The word of \<open>e\<close> itself is
  such an input when it is non-empty and holds only ASCII letters, hyphens and
  apostrophes.
\<close>

theorem found_local_last_entry:
  assumes "\<forall>e' \<in> set ys. lower (word e') \<noteq> lower (word e)"
    and "etymology e \<noteq> []"
  shows "(clean_word raw \<noteq> [] \<and> lower (clean_word raw) = lower (word e)
            \<longrightarrow> resolve soup_of net (xs @ e # ys) raw use_online = (Inr (FoundLocal e), []))
       \<and> (word e \<noteq> [] \<and> list_all kept_char (word e)
            \<longrightarrow> resolve soup_of net (xs @ e # ys) (word e) use_online
                  = (Inr (FoundLocal e), []))"
proof -
  have found: "resolve soup_of net (xs @ e # ys) r use_online = (Inr (FoundLocal e), [])"
    if "clean_word r \<noteq> []" and "lower (clean_word r) = lower (word e)" for r
  proof -
    from assms(1) have "local_map (xs @ e # ys) (lower (word e)) = Some e"
      by (rule local_map_last)
    with that assms(2) show ?thesis by (simp add: resolve_found)
  qed
  show ?thesis
  proof (intro conjI impI)
    assume "clean_word raw \<noteq> [] \<and> lower (clean_word raw) = lower (word e)"
    then show "resolve soup_of net (xs @ e # ys) raw use_online = (Inr (FoundLocal e), [])"
      using found by blast
  next
    assume "word e \<noteq> [] \<and> list_all kept_char (word e)"
    then have "clean_word (word e) = word e" and "word e \<noteq> []"
      by (simp_all add: clean_word_id)
    then show "resolve soup_of net (xs @ e # ys) (word e) use_online = (Inr (FoundLocal e), [])"
      using found [of "word e"] by simp
  qed
qed

theorem found_local_last_entry_witness:
  "lower (word \<lparr>word = ''bio'', etymology = '''', notes = ''''\<rparr>)
     \<noteq> lower (word \<lparr>word = ''Port'', etymology = ''Latin portare'', notes = ''grade8''\<rparr>)
   \<and> etymology \<lparr>word = ''Port'', etymology = ''Latin portare'', notes = ''grade8''\<rparr> \<noteq> []
   \<and> clean_word '' pOrt!'' \<noteq> []
   \<and> lower (clean_word '' pOrt!'')
       = lower (word \<lparr>word = ''Port'', etymology = ''Latin portare'', notes = ''grade8''\<rparr>)
   \<and> resolve no_soup no_service
        ([\<lparr>word = ''port'', etymology = ''older'', notes = ''''\<rparr>]
         @ \<lparr>word = ''Port'', etymology = ''Latin portare'', notes = ''grade8''\<rparr>
         # [\<lparr>word = ''bio'', etymology = '''', notes = ''''\<rparr>])
        '' pOrt!'' True
       = (Inr (FoundLocal \<lparr>word = ''Port'', etymology = ''Latin portare'', notes = ''grade8''\<rparr>), [])"
proof -
  have h0: "lower (word \<lparr>word = ''bio'', etymology = '''', notes = ''''\<rparr>)
     \<noteq> lower (word \<lparr>word = ''Port'', etymology = ''Latin portare'', notes = ''grade8''\<rparr>)"
    by code_simp
  then have h1: "\<forall>e' \<in> set [\<lparr>word = ''bio'', etymology = '''', notes = ''''\<rparr>].
       lower (word e') \<noteq> lower (word \<lparr>word = ''Port'', etymology = ''Latin portare'', notes = ''grade8''\<rparr>)"
    by simp
  have h2: "etymology \<lparr>word = ''Port'', etymology = ''Latin portare'', notes = ''grade8''\<rparr> \<noteq> []"
    by simp
  have h3: "clean_word '' pOrt!'' \<noteq> []"
    by code_simp
  have h4: "lower (clean_word '' pOrt!'')
       = lower (word \<lparr>word = ''Port'', etymology = ''Latin portare'', notes = ''grade8''\<rparr>)"
    by code_simp
  from found_local_last_entry [OF h1 h2, of "'' pOrt!''" no_soup no_service
      "[\<lparr>word = ''port'', etymology = ''older'', notes = ''''\<rparr>]" True] h0 h2 h3 h4
  show ?thesis by blast
qed

text \<open>
  C1 as stated fails on this dataset: the first entry has a non-empty etymology, but
  its word holds a space, which normalization removes, so that the lookup key differs
  from the dataset key; the second has a non-empty etymology, but a later entry with
  the same word in another case replaces it in the lookup map.
\<close>

theorem found_local_counterexample:
  "resolve no_soup no_service
     [\<lparr>word = ''ice cream'', etymology = ''frozen'', notes = ''''\<rparr>,
      \<lparr>word = ''port'', etymology = ''Latin portare'', notes = ''''\<rparr>,
      \<lparr>word = ''Port'', etymology = '''', notes = ''''\<rparr>] ''ice cream'' False
     = (Inr (HeuristicOnly (find_roots ''icecream'')), [])
   \<and> resolve no_soup no_service
     [\<lparr>word = ''ice cream'', etymology = ''frozen'', notes = ''''\<rparr>,
      \<lparr>word = ''port'', etymology = ''Latin portare'', notes = ''''\<rparr>,
      \<lparr>word = ''Port'', etymology = '''', notes = ''''\<rparr>] ''port'' False
     = (Inr (HeuristicOnly (find_roots ''port'')), [])"
proof -
  have c: "clean_word ''ice cream'' = ''icecream''" "clean_word ''port'' = ''port''"
    by code_simp+
  have l: "lower ''icecream'' = ''icecream''" "lower ''port'' = ''port''"
    by code_simp+
  have m: "local_map
     [\<lparr>word = ''ice cream'', etymology = ''frozen'', notes = ''''\<rparr>,
      \<lparr>word = ''port'', etymology = ''Latin portare'', notes = ''''\<rparr>,
      \<lparr>word = ''Port'', etymology = '''', notes = ''''\<rparr>] ''icecream'' = None"
    by code_simp
  have m': "local_map
     [\<lparr>word = ''ice cream'', etymology = ''frozen'', notes = ''''\<rparr>,
      \<lparr>word = ''port'', etymology = ''Latin portare'', notes = ''''\<rparr>,
      \<lparr>word = ''Port'', etymology = '''', notes = ''''\<rparr>] ''port''
     = Some \<lparr>word = ''Port'', etymology = '''', notes = ''''\<rparr>"
    by code_simp
  show ?thesis
    by (simp add: resolve_def explain_not_local_def Let_def c l m m')
qed

text \<open>
  C2. When the normalized word is non-empty and the dataset has no entry for it, or only
  entries with an empty etymology, the handler with online lookup disabled answers
  \<open>HeuristicOnly\<close> with the root matches of the normalized word (possibly none) and
  makes no request: the log of requests is empty. The answer is the same for any two
  remote services.
\<close>

theorem offline_heuristic_only:
  assumes "clean_word raw \<noteq> []"
    and "\<forall>e \<in> set local_rows. lower (word e) = lower (clean_word raw) \<longrightarrow> etymology e = []"
  shows "resolve soup_of net local_rows raw False
           = (Inr (HeuristicOnly (find_roots (clean_word raw))), [])
       \<and> resolve soup_of net local_rows raw False = resolve soup_of net' local_rows raw False"
  using assms by (simp add: resolve_not_local explain_not_local_def Let_def)

theorem offline_heuristic_only_witness:
  "clean_word ''Bio-science 101'' \<noteq> []
   \<and> etymology \<lparr>word = ''bio-science'', etymology = '''', notes = ''todo''\<rparr> = []
   \<and> lower (word \<lparr>word = ''port'', etymology = ''Latin portare'', notes = ''''\<rparr>)
       \<noteq> lower (clean_word ''Bio-science 101'')
   \<and> resolve no_soup no_service
        [\<lparr>word = ''bio-science'', etymology = '''', notes = ''todo''\<rparr>,
         \<lparr>word = ''port'', etymology = ''Latin portare'', notes = ''''\<rparr>] ''Bio-science 101'' False
       = (Inr (HeuristicOnly (find_roots (clean_word ''Bio-science 101''))), [])"
proof -
  have h1: "clean_word ''Bio-science 101'' \<noteq> []"
    by code_simp
  have h2: "etymology \<lparr>word = ''bio-science'', etymology = '''', notes = ''todo''\<rparr> = []"
    by simp
  have h3: "lower (word \<lparr>word = ''port'', etymology = ''Latin portare'', notes = ''''\<rparr>)
       \<noteq> lower (clean_word ''Bio-science 101'')"
    by code_simp
  from h2 h3 have h: "\<forall>e \<in> set [\<lparr>word = ''bio-science'', etymology = '''', notes = ''todo''\<rparr>,
                  \<lparr>word = ''port'', etymology = ''Latin portare'', notes = ''''\<rparr>].
        lower (word e) = lower (clean_word ''Bio-science 101'') \<longrightarrow> etymology e = []"
    by simp
  from offline_heuristic_only [OF h1 h, of no_soup no_service no_service] h1 h2 h3
  show ?thesis by simp
qed

text \<open>
  C9. An entry that no later entry duplicates (same lower-cased word) is the one the
  lookup map holds under its key, whatever entries with that key come before it; and a
  \<open>FoundLocal\<close> answer for an input with that key carries this last entry, never an
  earlier duplicate.
\<close>

theorem last_duplicate_wins:
  assumes "\<forall>e \<in> set ys. lower (word e) \<noteq> lower (word r)"
  shows "local_map (xs @ r # ys) (lower (word r)) = Some r
       \<and> (\<forall>e. lower (clean_word raw) = lower (word r)
               \<and> fst (resolve soup_of net (xs @ r # ys) raw use_online) = Inr (FoundLocal e)
             \<longrightarrow> e = r)"
proof (intro conjI allI impI)
  from assms show *: "local_map (xs @ r # ys) (lower (word r)) = Some r"
    by (rule local_map_last)
  fix e
  assume a: "lower (clean_word raw) = lower (word r)
    \<and> fst (resolve soup_of net (xs @ r # ys) raw use_online) = Inr (FoundLocal e)"
  then have "local_map (xs @ r # ys) (lower (clean_word raw)) = Some e"
    using resolve_FoundLocalD by blast
  with a * show "e = r" by simp
qed

theorem last_duplicate_wins_witness:
  "lower (word \<lparr>word = ''bio'', etymology = ''Greek bios'', notes = ''''\<rparr>)
     \<noteq> lower (word \<lparr>word = ''PORT'', etymology = ''second'', notes = ''b''\<rparr>)
   \<and> local_map ([\<lparr>word = ''port'', etymology = ''first'', notes = ''a''\<rparr>]
                 @ \<lparr>word = ''PORT'', etymology = ''second'', notes = ''b''\<rparr>
                 # [\<lparr>word = ''bio'', etymology = ''Greek bios'', notes = ''''\<rparr>])
        (lower (word \<lparr>word = ''PORT'', etymology = ''second'', notes = ''b''\<rparr>))
       = Some \<lparr>word = ''PORT'', etymology = ''second'', notes = ''b''\<rparr>"
proof -
  have h0: "lower (word \<lparr>word = ''bio'', etymology = ''Greek bios'', notes = ''''\<rparr>)
     \<noteq> lower (word \<lparr>word = ''PORT'', etymology = ''second'', notes = ''b''\<rparr>)"
    by code_simp
  then have h: "\<forall>e \<in> set [\<lparr>word = ''bio'', etymology = ''Greek bios'', notes = ''''\<rparr>].
       lower (word e) \<noteq> lower (word \<lparr>word = ''PORT'', etymology = ''second'', notes = ''b''\<rparr>)"
    by simp
  from last_duplicate_wins [OF h, of "[\<lparr>word = ''port'', etymology = ''first'', notes = ''a''\<rparr>]"] h0
  show ?thesis by blast
qed

section \<open>The root matcher\<close>

text \<open>
  Every match of the scan is the first alternative that matches at its position, and the
  positions of the matches are those the scan stands at.
\<close>

lemma finditer_sound:
  "(j, m) \<in> set (finditer alts i w) \<Longrightarrow>
     i \<le> j \<and> (\<exists>p. find (\<lambda>p. match_at p (drop (j - i) w)) alts = Some p
                  \<and> m = take (length p) (drop (j - i) w))"
proof (induction alts i w rule: finditer.induct)
  case (1 alts i)
  then show ?case by simp
next
  case (2 alts i c cs)
  show ?case
  proof (cases "find (\<lambda>p. match_at p (c # cs)) alts")
    case None
    with "2.prems" have "(j, m) \<in> set (finditer alts (Suc i) cs)" by simp
    with "2.IH"(1) [OF None] have "Suc i \<le> j"
      and "\<exists>p. find (\<lambda>p. match_at p (drop (j - Suc i) cs)) alts = Some p
                  \<and> m = take (length p) (drop (j - Suc i) cs)" by auto
    moreover from \<open>Suc i \<le> j\<close> have "j - i = Suc (j - Suc i)" by arith
    then have "drop (j - i) (c # cs) = drop (j - Suc i) cs" by simp
    ultimately show ?thesis by simp
  next
    case (Some p)
    with "2.prems" consider "(j, m) = (i, take (length p) (c # cs))"
      | "(j, m) \<in> set (finditer alts (Suc i + (length p - 1)) (drop (length p - 1) cs))"
      by auto
    then show ?thesis
    proof cases
      case 1
      with Some show ?thesis by simp
    next
      case 2
      with "2.IH"(2) [OF Some] have le: "Suc i + (length p - 1) \<le> j"
        and ex: "\<exists>q. find (\<lambda>q. match_at q (drop (j - (Suc i + (length p - 1))) (drop (length p - 1) cs))) alts = Some q
                  \<and> m = take (length q) (drop (j - (Suc i + (length p - 1))) (drop (length p - 1) cs))" by auto
      from le have "j - i = Suc (j - (Suc i + (length p - 1)) + (length p - 1))" by arith
      then have "drop (j - (Suc i + (length p - 1))) (drop (length p - 1) cs) = drop (j - i) (c # cs)"
        by simp
      with le ex show ?thesis by simp
    qed
  qed
qed

lemma find_first_is_longest:
  assumes "find P (root_regex keys) = Some p" and "q \<in> set keys" and "P q"
  shows "length q \<le> length p"
proof -
  let ?xs = "root_regex keys"
  have sorted: "sorted (map (\<lambda>k. - int (length k)) ?xs)"
    by (simp add: root_regex_def)
  from assms(1) obtain i where i: "i < length ?xs" "?xs ! i = p" "\<forall>j<i. \<not> P (?xs ! j)"
    by (auto simp add: find_Some_iff)
  from assms(2) have "q \<in> set ?xs" by (simp add: root_regex_def)
  then obtain k where k: "k < length ?xs" "?xs ! k = q"
    by (auto simp add: in_set_conv_nth)
  with i(3) assms(3) have "i \<le> k" by (meson not_le)
  with sorted k(1) have "map (\<lambda>k. - int (length k)) ?xs ! i \<le> map (\<lambda>k. - int (length k)) ?xs ! k"
    by (simp add: sorted_iff_nth_mono)
  with i k show ?thesis by simp
qed

lemma finditer_reaches:
  assumes "\<forall>q \<in> set alts. q \<noteq> []"
    and "\<forall>j<i. \<forall>q \<in> set alts. match_at q (drop j w) \<longrightarrow> j + length q \<le> i"
    and "find (\<lambda>p. match_at p (drop i w)) alts = Some p"
  shows "(off + i, take (length p) (drop i w)) \<in> set (finditer alts off w)"
  using assms
proof (induction alts off w arbitrary: i rule: finditer.induct)
  case (1 alts off)
  from "1.prems"(3) have "p \<in> set alts" "match_at p []"
    by (auto simp add: find_Some_iff)
  with "1.prems"(1) show ?case by (auto simp add: match_at_def)
next
  case (2 alts off c cs)
  show ?case
  proof (cases i)
    case 0
    with "2.prems"(3) show ?thesis by simp
  next
    case (Suc i')
    show ?thesis
    proof (cases "find (\<lambda>p. match_at p (c # cs)) alts")
      case None
      have "\<forall>j<i'. \<forall>q \<in> set alts. match_at q (drop j cs) \<longrightarrow> j + length q \<le> i'"
      proof (intro allI impI ballI)
        fix j q assume "j < i'" "q \<in> set alts" "match_at q (drop j cs)"
        with "2.prems"(2) [rule_format, of "Suc j" q] Suc show "j + length q \<le> i'" by simp
      qed
      moreover from "2.prems"(3) Suc have "find (\<lambda>p. match_at p (drop i' cs)) alts = Some p" by simp
      ultimately have "(Suc off + i', take (length p) (drop i' cs)) \<in> set (finditer alts (Suc off) cs)"
        using "2.IH"(1) [OF None "2.prems"(1)] by blast
      with None Suc show ?thesis by simp
    next
      case (Some q)
      then have q: "q \<in> set alts" "match_at q (c # cs)"
        by (auto simp add: find_Some_iff)
      with "2.prems"(1) have qn: "length q \<ge> 1" by (cases q) auto
      from "2.prems"(2) [rule_format, of 0 q] q Suc have qi: "length q \<le> i" by simp
      let ?i = "i - length q"
      have "\<forall>j<?i. \<forall>r \<in> set alts. match_at r (drop j (drop (length q - 1) cs)) \<longrightarrow> j + length r \<le> ?i"
      proof (intro allI impI ballI)
        fix j r assume a: "j < ?i" "r \<in> set alts" "match_at r (drop j (drop (length q - 1) cs))"
        from qn have "drop j (drop (length q - 1) cs) = drop (j + length q) (c # cs)"
          by (cases "length q") (simp_all add: add.commute)
        moreover from a(1) have "j + length q < i" by arith
        ultimately have "j + length q + length r \<le> i"
          using a "2.prems"(2) [rule_format, of "j + length q" r] by simp
        then show "j + length r \<le> ?i" by arith
      qed
      moreover have "drop ?i (drop (length q - 1) cs) = drop i (c # cs)"
        using qn qi Suc by (cases "length q") (simp_all add: add.commute)
      with "2.prems"(3) have "find (\<lambda>p. match_at p (drop ?i (drop (length q - 1) cs))) alts = Some p"
        by simp
      ultimately have "(Suc off + (length q - 1) + ?i, take (length p) (drop ?i (drop (length q - 1) cs)))
          \<in> set (finditer alts (Suc off + (length q - 1)) (drop (length q - 1) cs))"
        using "2.IH"(2) [OF Some "2.prems"(1)] by blast
      moreover have "Suc off + (length q - 1) + ?i = off + i" using qn qi by simp
      moreover note \<open>drop ?i (drop (length q - 1) cs) = drop i (c # cs)\<close>
      ultimately show ?thesis using Some by simp
    qed
  qed
qed

lemma keys_lower: "\<forall>k \<in> set COMMON_ROOTS_keys. lower k = k \<and> k \<noteq> []"
  by code_simp

lemma keys_prefix_free:
  "\<forall>p \<in> set COMMON_ROOTS_keys. \<forall>q \<in> set COMMON_ROOTS_keys.
     length p \<le> length q \<and> take (length p) q = p \<longrightarrow> p = q"
  by code_simp

lemma set_root_regex: "set (root_regex keys) = set keys"
  by (simp add: root_regex_def)

lemma same_position_aux:
  assumes "p \<in> set COMMON_ROOTS_keys" "q \<in> set COMMON_ROOTS_keys"
    and "match_at p v" "match_at q v" and "length p \<le> length q"
  shows "p = q"
proof -
  from assms(1,2) keys_lower have lp: "lower p = p" and lq: "lower q = q" by auto
  from assms(3) lp have p: "lower (take (length p) v) = p" by (simp add: match_at_def)
  from assms(4) lq have q: "lower (take (length q) v) = q" by (simp add: match_at_def)
  have "take (length p) q = take (length p) (lower (take (length q) v))" using q by simp
  also have "\<dots> = lower (take (length p) (take (length q) v))"
    by (simp add: lower_def take_map)
  also have "\<dots> = lower (take (length p) v)" using assms(5) by (simp add: min_def)
  finally have "take (length p) q = p" using p by simp
  with assms(1,2,5) keys_prefix_free show ?thesis by blast
qed

lemma same_position:
  assumes "p \<in> set COMMON_ROOTS_keys" "q \<in> set COMMON_ROOTS_keys"
    and "match_at p v" "match_at q v"
  shows "p = q"
proof (cases "length p \<le> length q")
  case True
  with assms show ?thesis by (rule same_position_aux)
next
  case False
  then have "length q \<le> length p" by simp
  with assms(2,1,4,3) have "q = p" by (rule same_position_aux)
  then show ?thesis by simp
qed

lemma find_roots_iff:
  "r \<in> set (find_roots w) \<longleftrightarrow> (\<exists>j m. (j, m) \<in> set (finditer ROOT_REGEX 0 w) \<and> r = lower m)"
  by (force simp add: find_roots_def find_roots_with_def ROOT_REGEX_def image_iff)

lemma find_roots_sound:
  assumes "r \<in> set (find_roots w)"
  shows "r \<in> set COMMON_ROOTS_keys \<and> (\<exists>i. occurs_at r w i)"
proof -
  from assms obtain j m where jm: "(j, m) \<in> set (finditer ROOT_REGEX 0 w)" and r: "r = lower m"
    by (auto simp add: find_roots_iff)
  from finditer_sound [OF jm] obtain p
    where f: "find (\<lambda>p. match_at p (drop j w)) ROOT_REGEX = Some p"
      and m: "m = take (length p) (drop j w)" by auto
  from f have "p \<in> set ROOT_REGEX" and ma: "match_at p (drop j w)"
    by (auto simp add: find_Some_iff)
  then have p: "p \<in> set COMMON_ROOTS_keys"
    by (simp add: ROOT_REGEX_def set_root_regex)
  from ma m r have "r = lower p" by (simp add: match_at_def)
  with p keys_lower have "r = p" by simp
  with p ma show ?thesis by (auto simp add: occurs_at_def)
qed

lemma find_roots_complete:
  assumes p: "p \<in> set COMMON_ROOTS_keys" and occ: "occurs_at p w i"
    and free: "\<forall>j<i. \<forall>q \<in> set COMMON_ROOTS_keys. occurs_at q w j \<longrightarrow> j + length q \<le> i"
  shows "p \<in> set (find_roots w)"
proof -
  have ne: "\<forall>q \<in> set ROOT_REGEX. q \<noteq> []"
    using keys_lower by (simp add: ROOT_REGEX_def set_root_regex)
  have free': "\<forall>j<i. \<forall>q \<in> set ROOT_REGEX. match_at q (drop j w) \<longrightarrow> j + length q \<le> i"
    using free by (simp add: ROOT_REGEX_def set_root_regex occurs_at_def)
  from p occ have "\<exists>q \<in> set ROOT_REGEX. match_at q (drop i w)"
    by (auto simp add: ROOT_REGEX_def set_root_regex occurs_at_def)
  then obtain p' where f: "find (\<lambda>q. match_at q (drop i w)) ROOT_REGEX = Some p'"
    by (cases "find (\<lambda>q. match_at q (drop i w)) ROOT_REGEX") (auto simp add: find_None_iff)
  then have "p' \<in> set ROOT_REGEX" and ma: "match_at p' (drop i w)"
    by (auto simp add: find_Some_iff)
  then have p': "p' \<in> set COMMON_ROOTS_keys"
    by (simp add: ROOT_REGEX_def set_root_regex)
  from p p' occ ma have "p' = p" by (auto simp add: occurs_at_def intro: same_position)
  with finditer_reaches [OF ne free' f, of 0]
  have "(i, take (length p) (drop i w)) \<in> set (finditer ROOT_REGEX 0 w)" by simp
  moreover from occ p keys_lower have "lower (take (length p) (drop i w)) = p"
    by (simp add: occurs_at_def match_at_def)
  ultimately have "\<exists>j m. (j, m) \<in> set (finditer ROOT_REGEX 0 w) \<and> p = lower m"
    by metis
  then show ?thesis by (simp add: find_roots_iff)
qed

lemma script_examples:
  "find_roots ''script'' = [''script'']"
  "find_roots_with [''scr'', ''script''] ''script'' = [''script'']"
  "finditer (root_regex [''scr'', ''script'']) 0 ''script'' = [(0, ''script'')]"
  by code_simp+

text \<open>
  C3, as amended. \<open>find_roots\<close> returns the sorted, duplicate-free list of the patterns
  found by a scan from left to right for matches that do not overlap. Every pattern it
  returns is a key of the lexicon that occurs in the word case-insensitively. It returns
  every key that occurs at an offset which no occurrence of a key starting further left
  reaches over; an occurrence that overlaps an earlier one may go unreported.
\<close>

theorem find_roots_scan:
  "sorted (find_roots w) \<and> distinct (find_roots w)
   \<and> (\<forall>r \<in> set (find_roots w). r \<in> set COMMON_ROOTS_keys \<and> (\<exists>i. occurs_at r w i))
   \<and> (\<forall>p \<in> set COMMON_ROOTS_keys. \<forall>i.
         occurs_at p w i
         \<and> (\<forall>j<i. \<forall>q \<in> set COMMON_ROOTS_keys. occurs_at q w j \<longrightarrow> j + length q \<le> i)
         \<longrightarrow> p \<in> set (find_roots w))"
proof (intro conjI ballI allI impI)
  show "sorted (find_roots w)" by (simp add: find_roots_def find_roots_with_def)
  show "distinct (find_roots w)" by (simp add: find_roots_def find_roots_with_def)
next
  fix r assume "r \<in> set (find_roots w)"
  then show "r \<in> set COMMON_ROOTS_keys" and "\<exists>i. occurs_at r w i"
    using find_roots_sound by blast+
next
  fix p i
  assume "p \<in> set COMMON_ROOTS_keys"
    and "occurs_at p w i
         \<and> (\<forall>j<i. \<forall>q \<in> set COMMON_ROOTS_keys. occurs_at q w j \<longrightarrow> j + length q \<le> i)"
  then show "p \<in> set (find_roots w)" using find_roots_complete by blast
qed

theorem find_roots_scan_witness:
  "''bio'' \<in> set COMMON_ROOTS_keys \<and> occurs_at ''bio'' ''aBiotic'' 1
   \<and> list_all (\<lambda>q. \<not> occurs_at q ''aBiotic'' 0) COMMON_ROOTS_keys
   \<and> ''bio'' \<in> set (find_roots ''aBiotic'')"
proof -
  have h: "''bio'' \<in> set COMMON_ROOTS_keys \<and> occurs_at ''bio'' ''aBiotic'' 1
    \<and> list_all (\<lambda>q. \<not> occurs_at q ''aBiotic'' 0) COMMON_ROOTS_keys"
    by code_simp
  then have "\<forall>j<1. \<forall>q \<in> set COMMON_ROOTS_keys. occurs_at q ''aBiotic'' j \<longrightarrow> j + length q \<le> 1"
    by (simp add: list_all_iff)
  with find_roots_scan [of "''aBiotic''"] h show ?thesis by blast
qed

text \<open>
  C3 as stated fails: \<open>ology\<close> is a key and occurs in \<open>biology\<close>, but the scan matches \<open>bio\<close>
  at the start, goes on after it, and never sees the occurrence that overlaps it.
\<close>

theorem find_roots_overlap_counterexample:
  "''ology'' \<in> set COMMON_ROOTS_keys \<and> occurs_at ''ology'' ''biology'' 2
   \<and> find_roots ''biology'' = [''bio'']"
  by code_simp

text \<open>
  C4. For any lexicon, a match reported at a position is at least as long as every
  pattern of the lexicon that occurs at this position, and it is the text of a pattern
  occurring there: a shorter alternative never shadows a longer one that starts at the
  same offset. In particular, with a lexicon holding \<open>scr\<close> and \<open>script\<close>, and with the
  lexicon of the program, the word \<open>script\<close> yields \<open>script\<close>.
\<close>

theorem longest_match_precedence:
  assumes "(i, m) \<in> set (finditer (root_regex keys) 0 w)"
    and "q \<in> set keys" and "occurs_at q w i"
  shows "length q \<le> length m
       \<and> (\<exists>p \<in> set keys. occurs_at p w i \<and> m = take (length p) (drop i w))
       \<and> find_roots_with [''scr'', ''script''] ''script'' = [''script'']
       \<and> find_roots ''script'' = [''script'']"
proof -
  from finditer_sound [OF assms(1)] obtain p
    where f: "find (\<lambda>p. match_at p (drop i w)) (root_regex keys) = Some p"
      and m: "m = take (length p) (drop i w)" by auto
  from f have "p \<in> set (root_regex keys)" and ma: "match_at p (drop i w)"
    by (auto simp add: find_Some_iff)
  then have p: "p \<in> set keys"
    by (simp add: set_root_regex)
  from assms(3) have "match_at q (drop i w)" by (simp add: occurs_at_def)
  with f assms(2) have "length q \<le> length p" by (rule find_first_is_longest)
  moreover from ma m have "length m = length p" by (simp add: match_at_def)
  ultimately have "length q \<le> length m
      \<and> (\<exists>p \<in> set keys. occurs_at p w i \<and> m = take (length p) (drop i w))"
    using p ma m by (auto simp add: occurs_at_def)
  with script_examples(1,2) show ?thesis by simp
qed

theorem longest_match_precedence_witness:
  "(0, ''script'') \<in> set (finditer (root_regex [''scr'', ''script'']) 0 ''script'')
   \<and> ''scr'' \<in> set [''scr'', ''script''] \<and> occurs_at ''scr'' ''script'' 0
   \<and> length ''scr'' \<le> length ''script''"
proof -
  have h1: "(0, ''script'') \<in> set (finditer (root_regex [''scr'', ''script'']) 0 ''script'')"
    unfolding script_examples(3) by simp
  have h2: "''scr'' \<in> set [''scr'', ''script'']" by simp
  have h3: "occurs_at ''scr'' ''script'' 0" by code_simp
  from longest_match_precedence [OF h1 h2 h3] h1 h2 h3 show ?thesis by blast
qed

section \<open>Etymology sections\<close>



lemma find_all_headings_tags:
  "(h, sibs) \<in> set (find_all_headings soup) \<Longrightarrow> \<exists>n kids. h = Tag n kids \<and> n \<in> set heading_names"
  by (induction soup rule: find_all_headings.induct) (auto split: if_splits)

lemma all_strings_as_div: "all_strings (as_div n) = all_strings n"
proof (induction n)
  case (NavigableString s)
  then show ?case by simp
next
  case (Tag n kids)
  have eq: "map (all_strings \<circ> as_div) kids = map all_strings kids"
    by (rule map_cong) (simp_all add: Tag)
  have "all_strings (as_div (Tag n kids)) = concat (map (all_strings \<circ> as_div) kids)"
    by simp
  also have "\<dots> = concat (map all_strings kids)"
    by (simp only: eq)
  finally show ?case by simp
qed

lemma get_text_as_div: "get_text (as_div n) = get_text n"
  by (simp add: get_text_def all_strings_as_div)

lemma collect_texts_as_div: "collect_texts lvl (map as_div sibs) = collect_texts lvl sibs"
proof (induction sibs)
  case Nil
  then show ?case by simp
next
  case (Cons sib sibs)
  show ?case
  proof (cases sib)
    case (NavigableString s)
    with Cons show ?thesis by simp
  next
    case (Tag n kids)
    have "get_text (Tag (if n = ''h5'' \<or> n = ''h6'' then ''div'' else n) (map as_div kids))
            = get_text (Tag n kids)"
      using get_text_as_div [of "Tag n kids"] by simp
    with Cons Tag show ?thesis
      by (auto simp add: heading_names_def block_names_def)
  qed
qed

lemma find_all_headings_as_div:
  "find_all_headings (map as_div soup)
     = map (\<lambda>hs. (as_div (fst hs), map as_div (snd hs))) (find_all_headings soup)"
  by (induction soup rule: find_all_headings.induct) (auto simp add: heading_names_def)

lemma sections_from_as_div:
  assumes "\<forall>hs \<in> set xs. \<exists>n kids. fst hs = Tag n kids \<and> n \<in> set heading_names"
  shows "sections_from (map (\<lambda>hs. (as_div (fst hs), map as_div (snd hs))) xs) = sections_from xs"
  using assms
proof (induction xs)
  case Nil
  then show ?case by simp
next
  case (Cons a xs)
  obtain h sibs where a: "a = (h, sibs)" by (cases a)
  with Cons.prems obtain n kids where h: "h = Tag n kids" "n \<in> set heading_names" by auto
  then have "node_level (as_div h) = node_level h" by (auto simp add: heading_names_def)
  with Cons a show ?case
    by (simp add: Let_def get_text_as_div collect_texts_as_div)
qed

lemma collect_texts_skip:
  assumes "n \<notin> set heading_names" "n \<notin> set block_names"
  shows "collect_texts lvl (Tag n kids # sibs) = collect_texts lvl sibs"
  using assms by simp


text \<open>
  C10. Only the tags \<open>h2\<close>, \<open>h3\<close> and \<open>h4\<close> count as headings. A sibling \<open>h5\<close> or \<open>h6\<close>
  neither ends the collection nor adds to the body; renaming every \<open>h5\<close> and \<open>h6\<close> of a
  page to \<open>div\<close> leaves the extracted sections unchanged; every heading considered is a
  tag \<open>h2\<close>, \<open>h3\<close> or \<open>h4\<close>; and an \<open>h5\<close> titled \<open>Etymology\<close> followed by a paragraph gives no
  section.
\<close>

theorem only_levels_2_to_4:
  "(n \<in> set [''h5'', ''h6''] \<longrightarrow>
      collect_texts lvl (Tag n kids # sibs) = collect_texts lvl sibs)
   \<and> extract_etymology_sections (map as_div soup) = extract_etymology_sections soup
   \<and> (\<forall>hs \<in> set (find_all_headings soup).
         \<exists>name kids. fst hs = Tag name kids \<and> name \<in> set [''h2'', ''h3'', ''h4''])
   \<and> extract_etymology_sections
        [Tag ''h5'' [NavigableString ''Etymology''], Tag ''p'' [NavigableString ''From Latin.'']]
      = []"
proof (intro conjI impI)
  assume "n \<in> set [''h5'', ''h6'']"
  then show "collect_texts lvl (Tag n kids # sibs) = collect_texts lvl sibs"
    by (auto simp add: heading_names_def block_names_def)
next
  have t: "\<forall>hs \<in> set (find_all_headings soup). \<exists>n kids. fst hs = Tag n kids \<and> n \<in> set heading_names"
    using find_all_headings_tags by fastforce
  then show "\<forall>hs \<in> set (find_all_headings soup).
         \<exists>name kids. fst hs = Tag name kids \<and> name \<in> set [''h2'', ''h3'', ''h4'']"
    by (simp add: heading_names_def)
  from t show "extract_etymology_sections (map as_div soup) = extract_etymology_sections soup"
    by (simp add: extract_etymology_sections_def find_all_headings_as_div sections_from_as_div)
next
  show "extract_etymology_sections
        [Tag ''h5'' [NavigableString ''Etymology''], Tag ''p'' [NavigableString ''From Latin.'']]
      = []"
    by code_simp
qed

theorem only_levels_2_to_4_witness:
  "''h5'' \<in> set [''h5'', ''h6'']
   \<and> collect_texts 3 (Tag ''h5'' [NavigableString ''Etymology 2''] # [Tag ''p'' [NavigableString ''b'']])
       = collect_texts 3 [Tag ''p'' [NavigableString ''b'']]
   \<and> extract_etymology_sections
        [Tag ''h3'' [NavigableString ''Etymology''],
         Tag ''p'' [NavigableString ''a''],
         Tag ''h5'' [NavigableString ''Etymology 2''],
         Tag ''p'' [NavigableString ''b''],
         Tag ''h3'' [NavigableString ''Pronunciation'']]
      = [\<lparr>heading = ''Etymology'', text = ''a\<newline>\<newline>b''\<rparr>]"
proof -
  have h: "''h5'' \<in> set [''h5'', ''h6'']" by simp
  have e: "extract_etymology_sections
        [Tag ''h3'' [NavigableString ''Etymology''],
         Tag ''p'' [NavigableString ''a''],
         Tag ''h5'' [NavigableString ''Etymology 2''],
         Tag ''p'' [NavigableString ''b''],
         Tag ''h3'' [NavigableString ''Pronunciation'']]
      = [\<lparr>heading = ''Etymology'', text = ''a\<newline>\<newline>b''\<rparr>]"
    by code_simp
  from only_levels_2_to_4 [of "''h5''" 3 "[NavigableString ''Etymology 2'']"
      "[Tag ''p'' [NavigableString ''b'']]" "[]"] h e
  show ?thesis by blast
qed

section \<open>The remote resolver\<close>










section \<open>Loading and saving the dataset\<close>

text \<open>Reading line by line is reading the text in one pass.\<close>

lemma step_simps [simp]:
  "step (Inl e) c = Inl e"
  "step (Inr rd) c = parse_process_char rd c"
  by (simp_all add: step_def)



lemma parse_reset_simps [simp]:
  "rstate parse_reset = START_RECORD" "rfields parse_reset = []" "rfield parse_reset = []"
  by (simp_all add: parse_reset_def)


























text \<open>
  C8. The loader answers a missing file with the empty list. But it tests the word
  before trimming it: a row whose word is a single space is kept, with the empty word,
  against the invariant of an entry. (A row that is shorter than the header raises
  \<open>AttributeError\<close>, the missing fields being \<open>None\<close>.)
\<close>

theorem loader_keeps_blank_word:
  "load_db_from_path
     [''etymology_db.csv'' \<mapsto> ''word,etymology,notes'' @ [CR, LF] @ '' ,x,y'' @ [CR, LF]]
     ''etymology_db.csv''
     = Inr [\<lparr>word = [], etymology = ''x'', notes = ''y''\<rparr>]
   \<and> load_db_from_path
     [''etymology_db.csv'' \<mapsto> ''word,etymology,notes'' @ [CR, LF] @ ''port'' @ [CR, LF]]
     ''etymology_db.csv''
     = Inl AttributeError
   \<and> load_db_from_path Map.empty ''etymology_db.csv'' = Inr []"
  by code_simp

end
